theory Spec2Isabelle
  imports Main "HOL-Library.Word"
begin

unbundle bit_operations_syntax

section \<open>Machine integers of tile.h\<close>

text \<open>
  The header computes on \<^verbatim>\<open>int\<close> and \<^verbatim>\<open>unsigned\<close>, both 32 bits wide. Both are
  modelled as \<^typ>\<open>32 word\<close>: an \<^verbatim>\<open>int\<close> is the word of its two's complement
  representation and is read with \<^const>\<open>sint\<close>, an \<^verbatim>\<open>unsigned\<close> is read with
  \<^const>\<open>unat\<close> or \<^const>\<open>uint\<close>. The conversions between the two C++ types keep the
  bits, so they are the identity here. A left shift of an \<^verbatim>\<open>int\<close> keeps the low 32
  bits of the product (the value C++20 defines, and what compilers for two's complement
  machines produce).
\<close>

type_synonym cint = "32 word"
type_synonym cuint = "32 word"

text \<open>
  Every shift of the terrain helpers is by \<^verbatim>\<open>(3 - corner) * 8\<close>, evaluated in
  \<^verbatim>\<open>int\<close>. A shift of a 32-bit operand by a negative count or by 32 or more has no
  defined result in C++; \<open>shiftCount\<close> is \<open>None\<close> there, and the functions that shift
  pass the \<open>None\<close> on. The count is computed on unbounded integers, so a corner for
  which the \<^verbatim>\<open>int\<close> arithmetic itself would overflow is outside the range as well.
\<close>

definition shiftCount :: "cint \<Rightarrow> nat option" where
  "shiftCount corner =
     (let n = (3 - sint corner) * 8
      in if 0 \<le> n \<and> n < 32 then Some (nat n) else None)"

section \<open>Terrain helpers\<close>

text \<open>\<^verbatim>\<open>makeTerrain(int topLeft, int topRight, int bottomLeft, int bottomRight)\<close>\<close>

definition makeTerrain :: "cint \<Rightarrow> cint \<Rightarrow> cint \<Rightarrow> cint \<Rightarrow> cuint" where
  "makeTerrain topLeft topRight bottomLeft bottomRight =
     push_bit 24 (topLeft AND 0xFF) OR
     push_bit 16 (topRight AND 0xFF) OR
     push_bit 8 (bottomLeft AND 0xFF) OR
     (bottomRight AND 0xFF)"

text \<open>\<^verbatim>\<open>setTerrainCorner(unsigned terrain, int corner, int terrainId)\<close>\<close>

definition setTerrainCorner :: "cuint \<Rightarrow> cint \<Rightarrow> cint \<Rightarrow> cuint option" where
  "setTerrainCorner terrain corner terrainId =
     (case shiftCount corner of
        None \<Rightarrow> None
      | Some n \<Rightarrow>
          (let mask = push_bit n (0xFF :: cint);
               insert = push_bit n terrainId
           in Some ((terrain AND NOT mask) OR (insert AND mask))))"

text \<open>
  The encoding in the words of the specification, on mathematical integers:
  \<open>(topLeft<<24)|(topRight<<16)|(bottomLeft<<8)|bottomRight\<close>, each masked to 8 bits.
\<close>

definition terrainEncoding_spec :: "int \<Rightarrow> int \<Rightarrow> int \<Rightarrow> int \<Rightarrow> int" where
  "terrainEncoding_spec topLeft topRight bottomLeft bottomRight =
     push_bit 24 (topLeft AND 255) OR
     push_bit 16 (topRight AND 255) OR
     push_bit 8 (bottomLeft AND 255) OR
     (bottomRight AND 255)"

section \<open>Frames and tiles\<close>

record Frame =
  tileId :: int
  duration :: int

text \<open>
  \<^verbatim>\<open>QPixmap\<close> belongs to Qt. Of a pixmap the header only asks \<^verbatim>\<open>isNull()\<close> and the
  dimensions, so a pixmap is either the null pixmap or one with a width and a height.
\<close>

datatype QPixmap = NullPixmap | Pixmap nat nat

definition isNull :: "QPixmap \<Rightarrow> bool" where
  "isNull pixmap = (case pixmap of NullPixmap \<Rightarrow> True | Pixmap w h \<Rightarrow> False)"

text \<open>
  Modelled from the spec: the enumeration \<^verbatim>\<open>LoadingStatus\<close> is declared in tiled.h,
  which is not among the sources. The specification describes it as a load-status
  enumeration (not-loaded / ready / error); tile.h names the last two
  \<^verbatim>\<open>LoadingReady\<close> and \<^verbatim>\<open>LoadingError\<close>.
\<close>

datatype LoadingStatus = LoadingPending | LoadingReady | LoadingError

text \<open>
  The fields of \<^verbatim>\<open>class Tile\<close>. The tileset pointer, the probability (a floating point
  number) and the owned object group play no part in the operations below and are left
  out. The identifiers, the frame index and the times are \<^verbatim>\<open>int\<close>s on which the header
  does no bit operation; they are modelled as \<^typ>\<open>int\<close>, and the 32-bit range is
  written out where an operation could leave it.
\<close>

record Tile =
  mId :: int
  mImage :: QPixmap
  mImageSource :: string
  mImageStatus :: LoadingStatus
  mType :: string
  mTerrain :: cuint
  mFrames :: "Frame list"
  mCurrentFrameIndex :: int
  mUnusedTime :: int

definition setImage :: "QPixmap \<Rightarrow> Tile \<Rightarrow> Tile" where
  "setImage img tile =
     tile\<lparr>mImage := img,
          mImageStatus := (if isNull img then LoadingError else LoadingReady)\<rparr>"

definition imageStatus :: "Tile \<Rightarrow> LoadingStatus" where
  "imageStatus tile = mImageStatus tile"

definition setImageStatus :: "LoadingStatus \<Rightarrow> Tile \<Rightarrow> Tile" where
  "setImageStatus status tile = tile\<lparr>mImageStatus := status\<rparr>"

definition terrain :: "Tile \<Rightarrow> cuint" where
  "terrain tile = mTerrain tile"

text \<open>
  \<^verbatim>\<open>Tile::cornerTerrainId\<close>: \<^verbatim>\<open>unsigned t = (terrain() >> (3 - corner)*8) & 0xFF;
  return t == 0xFF ? -1 : (int)t;\<close>
\<close>

definition cornerTerrainId :: "Tile \<Rightarrow> cint \<Rightarrow> cint option" where
  "cornerTerrainId tile corner =
     (case shiftCount corner of
        None \<Rightarrow> None
      | Some n \<Rightarrow>
          (let t = drop_bit n (terrain tile) AND 0xFF
           in Some (if t = 0xFF then - 1 else t)))"

text \<open>
  Modelled from the spec: \<^verbatim>\<open>Tile::setTerrain\<close> is declared in tile.h and defined in
  tile.cpp, which is not among the sources. The specification lists the terrain
  classification as a field of the tile; the setter stores the packed word in it.
\<close>

definition setTerrain :: "cuint \<Rightarrow> Tile \<Rightarrow> Tile" where
  "setTerrain w tile = tile\<lparr>mTerrain := w\<rparr>"

text \<open>\<^verbatim>\<open>Tile::setCornerTerrainId\<close>\<close>

definition setCornerTerrainId :: "cint \<Rightarrow> cint \<Rightarrow> Tile \<Rightarrow> Tile option" where
  "setCornerTerrainId corner terrainId tile =
     (case setTerrainCorner (mTerrain tile) corner terrainId of
        None \<Rightarrow> None
      | Some w \<Rightarrow> Some (setTerrain w tile))"

definition frames :: "Tile \<Rightarrow> Frame list" where
  "frames tile = mFrames tile"

definition isAnimated :: "Tile \<Rightarrow> bool" where
  "isAnimated tile \<longleftrightarrow> \<not> (mFrames tile = [])"

definition currentFrameIndex :: "Tile \<Rightarrow> int" where
  "currentFrameIndex tile = mCurrentFrameIndex tile"

section \<open>Animation state\<close>

text \<open>
  \<^verbatim>\<open>Tile::resetAnimation\<close> and \<^verbatim>\<open>Tile::advanceAnimation\<close> are declared in tile.h
  and defined in tile.cpp, which is not among the sources. The definitions of this
  section follow sections 3 and 4.2 of the specification. \<^verbatim>\<open>Tile::setFrames\<close> is
  declared in tile.h as well; the specification has no sentence on what it does, and it
  is not modelled.
\<close>

text \<open>
  tile.h declares \<^verbatim>\<open>ms\<close>, \<^verbatim>\<open>mUnusedTime\<close>, \<^verbatim>\<open>mCurrentFrameIndex\<close> and the fields of
  \<^verbatim>\<open>Frame\<close> as \<^verbatim>\<open>int\<close>. \<open>intRange\<close> holds of the integers a 32-bit \<^verbatim>\<open>int\<close> can
  hold. An addition of two \<^verbatim>\<open>int\<close>s whose sum is outside this range has no defined
  result in C++.
\<close>

definition intRange :: "int \<Rightarrow> bool" where
  "intRange x \<longleftrightarrow> - (2 ^ 31) \<le> x \<and> x < 2 ^ 31"

text \<open>
  Modelled from the spec: the validity of the current frame index, missing with
  tile.cpp. "The current animation frame index is always a valid index into the frame
  sequence when the sequence is non-empty."
\<close>

definition frameIndexValid :: "Tile \<Rightarrow> bool" where
  "frameIndexValid tile \<longleftrightarrow>
     0 \<le> mCurrentFrameIndex tile \<and> mCurrentFrameIndex tile < int (length (mFrames tile))"

text \<open>
  Modelled from the spec: the visible frame of a tile, missing with tile.cpp. A frame
  names "a tile id to display"; the visible frame is the tile id of the frame at the
  current index, and there is none when the index is no index into the sequence (as
  when the sequence is empty).
\<close>

definition visibleTileId :: "Tile \<Rightarrow> int option" where
  "visibleTileId tile =
     (if frameIndexValid tile
      then Some (tileId (mFrames tile ! nat (mCurrentFrameIndex tile)))
      else None)"

text \<open>
  Modelled from the spec: \<^verbatim>\<open>Tile::resetAnimation\<close>, defined in tile.cpp. "Resetting
  returns to the first frame with zero elapsed time", and the operation reports
  "whether the visible frame changed".
\<close>

definition resetAnimation :: "Tile \<Rightarrow> Tile \<times> bool" where
  "resetAnimation tile =
     (let tile' = tile\<lparr>mCurrentFrameIndex := 0, mUnusedTime := 0\<rparr>
      in (tile', visibleTileId tile' \<noteq> visibleTileId tile))"

text \<open>
  Modelled from the spec: the loop of \<^verbatim>\<open>Tile::advanceAnimation\<close>, defined in tile.cpp.
  "Advancing time by an elapsed amount moves forward through frames (wrapping at
  sequence end) proportionally to each frame's duration": while the time spent in the
  current frame exceeds the frame's duration, the duration is taken off the time and the
  index moves to the next frame, the first one after the last. A frame whose duration is
  not positive never ends (the "infinite-duration-equivalent" frame of section 8): the
  loop stops on it. \<open>i\<close> is the current index, \<open>unused\<close> the time spent in the
  current frame.
\<close>

function advanceLoop :: "Frame list \<Rightarrow> int \<Rightarrow> int \<Rightarrow> int \<times> int" where
  "advanceLoop fs i unused =
     (if 0 \<le> i \<and> i < int (length fs) \<and>
         0 < duration (fs ! nat i) \<and> duration (fs ! nat i) < unused
      then advanceLoop fs ((i + 1) mod int (length fs)) (unused - duration (fs ! nat i))
      else (i, unused))"
  by pat_completeness auto
termination
  by (relation "measure (\<lambda>(fs, i, unused). nat unused)") auto

declare advanceLoop.simps [simp del]

text \<open>
  Modelled from the spec: \<^verbatim>\<open>Tile::advanceAnimation\<close>, defined in tile.cpp. A tile
  without frames is not animated and tracks no frame: nothing changes. On an animated
  tile the elapsed time is added to the time spent in the current frame and the loop
  runs; the result reports "whether the visible frame changed". The specification says
  nothing of an animated tile whose index is not valid: the model has no result there
  (\<open>None\<close>). The time spent and the elapsed time are \<^verbatim>\<open>int\<close>s (tile.h, lines 147
  and 167): where their sum is outside the range of an \<^verbatim>\<open>int\<close> the addition has no
  defined result, and the model has none either. Inside the loop a positive duration
  below the time is taken off the time and the index stays below the length of the
  sequence, so nothing else can leave the range.
\<close>

definition advanceAnimation :: "int \<Rightarrow> Tile \<Rightarrow> (Tile \<times> bool) option" where
  "advanceAnimation ms tile =
     (if \<not> isAnimated tile then Some (tile, False)
      else if \<not> frameIndexValid tile then None
      else if \<not> intRange (mUnusedTime tile + ms) then None
      else
        (let (i, unused) =
               advanceLoop (mFrames tile) (mCurrentFrameIndex tile) (mUnusedTime tile + ms);
             tile' = tile\<lparr>mCurrentFrameIndex := i, mUnusedTime := unused\<rparr>
         in Some (tile', visibleTileId tile' \<noteq> visibleTileId tile)))"

text \<open>
  The vocabulary of the statements on \<open>advanceAnimation\<close>. \<open>frameAfter fs i k\<close> is the
  frame \<open>k\<close> places after index \<open>i\<close>, going round the sequence; \<open>passedTime fs i k\<close> is
  the sum of the durations of the \<open>k\<close> frames from index \<open>i\<close> on.
\<close>

definition frameAfter :: "Frame list \<Rightarrow> int \<Rightarrow> nat \<Rightarrow> Frame" where
  "frameAfter fs i k = fs ! nat ((i + int k) mod int (length fs))"

definition passedTime :: "Frame list \<Rightarrow> int \<Rightarrow> nat \<Rightarrow> int" where
  "passedTime fs i k = (\<Sum>j \<leftarrow> [0..<k]. duration (frameAfter fs i j))"

section \<open>Example tiles\<close>

definition plainTile :: Tile where
  "plainTile =
     \<lparr>mId = 7, mImage = NullPixmap, mImageSource = [], mImageStatus = LoadingPending,
      mType = [], mTerrain = 0xFFFFFFFF, mFrames = [], mCurrentFrameIndex = 0,
      mUnusedTime = 0\<rparr>"

definition threeFrames :: "Frame list" where
  "threeFrames =
     [\<lparr>tileId = 10, duration = 100\<rparr>, \<lparr>tileId = 11, duration = 50\<rparr>,
      \<lparr>tileId = 12, duration = 200\<rparr>]"

section \<open>Bytes of a terrain word\<close>

lemma FF_mask: "(0xFF :: 32 word) = mask 8"
  by (simp add: mask_eq_exp_minus_1)

lemma FF_mask_int: "(255 :: int) = mask 8"
  by (simp add: mask_eq_exp_minus_1)

lemma FF_unat: "(t :: 32 word) = 0xFF \<longleftrightarrow> unat t = 255"
  by (simp add: word_unat_eq_iff)

lemma corner_cases:
  assumes "0 \<le> sint (c::cint)" "sint c \<le> 3"
  shows "c = 0 \<or> c = 1 \<or> c = 2 \<or> c = 3"
proof -
  from assms have "sint c = 0 \<or> sint c = 1 \<or> sint c = 2 \<or> sint c = 3" by arith
  moreover have "c = word_of_int (sint c)" by simp
  ultimately show ?thesis by (metis word_of_int_0 word_of_int_1 word_of_int_numeral)
qed

lemma shiftCount_simps:
  "shiftCount 0 = Some 24" "shiftCount 1 = Some 16" "shiftCount 2 = Some 8"
  "shiftCount 3 = Some 0"
  by (simp_all add: shiftCount_def)

lemma shiftCount_Some:
  assumes "0 \<le> sint corner" "sint corner \<le> 3"
  shows "shiftCount corner = Some (8 * (3 - nat (sint corner)))"
  using assms by (auto simp: shiftCount_def Let_def nat_diff_distrib nat_mult_distrib)

lemma shiftCount_None:
  assumes "sint corner < 0 \<or> 3 < sint corner"
  shows "shiftCount corner = None"
  using assms by (auto simp: shiftCount_def Let_def)

lemma makeTerrain_byte0: "drop_bit 24 (makeTerrain a b c d) AND 0xFF = a AND 0xFF"
  unfolding makeTerrain_def FF_mask
  by (rule bit_word_eqI) (auto simp: bit_simps)

lemma makeTerrain_byte1: "drop_bit 16 (makeTerrain a b c d) AND 0xFF = b AND 0xFF"
  unfolding makeTerrain_def FF_mask
  by (rule bit_word_eqI) (auto simp: bit_simps)

lemma makeTerrain_byte2: "drop_bit 8 (makeTerrain a b c d) AND 0xFF = c AND 0xFF"
  unfolding makeTerrain_def FF_mask
  by (rule bit_word_eqI) (auto simp: bit_simps)

lemma makeTerrain_byte3: "makeTerrain a b c d AND 0xFF = d AND 0xFF"
  unfolding makeTerrain_def FF_mask
  by (rule bit_word_eqI) (auto simp: bit_simps)

lemma nonneg_sint_uint:
  assumes "0 \<le> sint (v::cint)"
  shows "uint v = sint v"
proof -
  have "sint v < 2 ^ 32" using sint_lt [of v] by simp
  then have "take_bit 32 (sint v) = sint v" using assms by (simp add: take_bit_int_eq_self)
  then show ?thesis using uint_sint [of v] by simp
qed

lemma byte_small:
  assumes "0 \<le> sint (v::cint)" "sint v \<le> 254"
  shows "v AND 0xFF = v" and "v \<noteq> 0xFF"
proof -
  have u: "uint v = sint v" using assms nonneg_sint_uint by simp
  have "uint v < uint (2 ^ 8 :: cint)" using u assms by simp
  then have "v < 2 ^ 8" by (simp only: word_less_def)
  then show "v AND 0xFF = v" unfolding FF_mask by (rule less_mask_eq)
  show "v \<noteq> 0xFF" using assms by auto
qed

lemma other_byte:
  fixes w v :: "32 word"
  assumes "a \<noteq> b"
  shows "drop_bit (8 * b) ((w AND NOT (push_bit (8 * a) (mask 8))) OR
            (push_bit (8 * a) v AND push_bit (8 * a) (mask 8))) AND mask 8
         = drop_bit (8 * b) w AND mask 8"
  using assms by (intro bit_word_eqI) (auto simp: bit_simps dest: bit_imp_le_length)

lemma same_byte:
  fixes w v :: "32 word"
  assumes "a \<le> 3"
  shows "drop_bit (8 * a) ((w AND NOT (push_bit (8 * a) (mask 8))) OR
            (push_bit (8 * a) v AND push_bit (8 * a) (mask 8))) AND mask 8
         = v AND mask 8"
  using assms by (intro bit_word_eqI) (auto simp: bit_simps dest: bit_imp_le_length)

lemma unat_byte:
  fixes w :: "32 word"
  shows "unat (drop_bit n w AND mask 8) = (unat w div 2 ^ n) mod 256"
proof -
  have "unat (drop_bit n w AND mask 8) = take_bit 8 (drop_bit n (take_bit LENGTH(32) (unat w)))"
    by (simp only: take_bit_eq_mask [symmetric] unsigned_take_bit_eq unsigned_drop_bit_eq)
  also have "take_bit LENGTH(32) (unat w) = unat w"
    using unsigned_less [of w, where ?'a = nat] by (simp add: take_bit_nat_eq_self)
  finally show ?thesis by (simp add: drop_bit_eq_div take_bit_eq_mod)
qed

lemma sint_small:
  fixes t :: "32 word"
  assumes "unat t < 256"
  shows "sint t = int (unat t)"
proof -
  have u: "uint t = int (unat t)" by (fact uint_nat)
  have "uint t < 256" using assms u by linarith
  then have hi: "uint t < 2 ^ 31" by simp
  have lo: "- (2 ^ 31) \<le> uint t" by (rule order_trans [of _ 0]) simp_all
  have "signed_take_bit 31 (uint t) = uint t"
    using lo hi by (rule signed_take_bit_int_eq_self)
  moreover have "sint t = signed_take_bit 31 (uint t)" by (simp add: sint_uint)
  ultimately show ?thesis by (simp only: u)
qed

lemma uint_low8: "uint (v AND 0xFF :: 32 word) = sint v AND 255"
proof -
  have "uint (v AND mask 8) = take_bit 8 (uint v)"
    by (simp only: take_bit_eq_mask [symmetric] unsigned_take_bit_eq)
  also have "\<dots> = take_bit 8 (take_bit LENGTH(32) (sint v))"
    by (simp only: uint_sint)
  also have "\<dots> = take_bit 8 (sint v)" by simp
  finally show ?thesis by (simp only: FF_mask FF_mask_int take_bit_eq_mask)
qed

lemma uint_push_low8:
  assumes "n \<le> 24"
  shows "uint (push_bit n (v AND 0xFF :: 32 word)) = push_bit n (sint v AND 255)"
proof -
  have "uint (push_bit n (v AND 0xFF)) = take_bit LENGTH(32) (push_bit n (uint (v AND 0xFF)))"
    by (simp only: unsigned_push_bit_eq)
  also have "\<dots> = take_bit 32 (push_bit n (take_bit 8 (sint v)))"
    by (simp add: uint_low8 FF_mask_int take_bit_eq_mask)
  also have "\<dots> = push_bit n (take_bit 8 (sint v))"
    using assms by (intro bit_eqI) (auto simp: bit_simps)
  finally show ?thesis by (simp add: FF_mask_int take_bit_eq_mask)
qed

lemma setTerrainCorner_Some:
  assumes "shiftCount corner = Some n"
  shows "setTerrainCorner w corner terrainId =
           Some ((w AND NOT (push_bit n (mask 8))) OR
                 (push_bit n terrainId AND push_bit n (mask 8)))"
  using assms by (simp add: setTerrainCorner_def Let_def FF_mask)

lemma cornerTerrainId_Some:
  assumes "shiftCount corner = Some n" and "drop_bit n (mTerrain tile) AND mask 8 = t"
  shows "cornerTerrainId tile corner = Some (if t = 0xFF then - 1 else t)"
  using assms by (simp add: cornerTerrainId_def terrain_def Let_def FF_mask)

lemma cornerTerrainId_None:
  assumes "sint corner < 0 \<or> 3 < sint corner"
  shows "cornerTerrainId tile corner = None"
  using shiftCount_None [OF assms] by (simp add: cornerTerrainId_def)

section \<open>Claims on the terrain corner codec\<close>

text \<open>
  C1. For four corner values \<open>topLeft\<close>, \<open>topRight\<close>, \<open>bottomLeft\<close>, \<open>bottomRight\<close>,
  each in \<open>[0,254]\<close>, and a tile whose terrain word is
  \<open>makeTerrain topLeft topRight bottomLeft bottomRight\<close>, \<open>cornerTerrainId\<close> of every
  corner in \<open>[0,3]\<close> returns the original value of that corner (corner 0 is top-left,
  1 top-right, 2 bottom-left, 3 bottom-right).
\<close>

theorem makeTerrain_cornerTerrainId:
  assumes "0 \<le> sint topLeft" "sint topLeft \<le> 254"
    and "0 \<le> sint topRight" "sint topRight \<le> 254"
    and "0 \<le> sint bottomLeft" "sint bottomLeft \<le> 254"
    and "0 \<le> sint bottomRight" "sint bottomRight \<le> 254"
    and "0 \<le> sint corner" "sint corner \<le> 3"
    and "terrain tile = makeTerrain topLeft topRight bottomLeft bottomRight"
  shows "cornerTerrainId tile corner =
           Some ([topLeft, topRight, bottomLeft, bottomRight] ! nat (sint corner))"
proof -
  from assms(9,10) consider "corner = 0" | "corner = 1" | "corner = 2" | "corner = 3"
    using corner_cases by blast
  then show ?thesis
  proof cases
    case 1
    then show ?thesis
      using byte_small [OF assms(1,2)] assms(11)
      by (simp add: cornerTerrainId_def shiftCount_simps makeTerrain_byte0)
  next
    case 2
    then show ?thesis
      using byte_small [OF assms(3,4)] assms(11)
      by (simp add: cornerTerrainId_def shiftCount_simps makeTerrain_byte1)
  next
    case 3
    then show ?thesis
      using byte_small [OF assms(5,6)] assms(11)
      by (simp add: cornerTerrainId_def shiftCount_simps makeTerrain_byte2)
  next
    case 4
    then show ?thesis
      using byte_small [OF assms(7,8)] assms(11)
      by (simp add: cornerTerrainId_def shiftCount_simps makeTerrain_byte3)
  qed
qed

theorem makeTerrain_cornerTerrainId_witness:
  "0 \<le> sint (200 :: cint) \<and> sint (200 :: cint) \<le> 254 \<and>
   0 \<le> sint (0 :: cint) \<and> sint (0 :: cint) \<le> 254 \<and>
   0 \<le> sint (254 :: cint) \<and> sint (254 :: cint) \<le> 254 \<and>
   0 \<le> sint (17 :: cint) \<and> sint (17 :: cint) \<le> 254 \<and>
   0 \<le> sint (2 :: cint) \<and> sint (2 :: cint) \<le> 3 \<and>
   terrain (plainTile\<lparr>mTerrain := makeTerrain 200 0 254 17\<rparr>) = makeTerrain 200 0 254 17 \<and>
   cornerTerrainId (plainTile\<lparr>mTerrain := makeTerrain 200 0 254 17\<rparr>) 2 = Some 254"
proof -
  have t: "terrain (plainTile\<lparr>mTerrain := makeTerrain 200 0 254 17\<rparr>) = makeTerrain 200 0 254 17"
    by (simp add: terrain_def)
  have "cornerTerrainId (plainTile\<lparr>mTerrain := makeTerrain 200 0 254 17\<rparr>) 2 =
          Some ([200, 0, 254, 17] ! nat (sint (2 :: cint)))"
    by (rule makeTerrain_cornerTerrainId [OF _ _ _ _ _ _ _ _ _ _ t]) simp_all
  then show ?thesis using t by simp
qed

text \<open>
  C2. For every terrain word \<open>w\<close>, every corner in \<open>[0,3]\<close> and every \<open>terrainId\<close>,
  \<open>setTerrainCorner w corner terrainId\<close> returns a word, and every other corner in
  \<open>[0,3]\<close> decodes (with \<open>cornerTerrainId\<close>) to the same value on a tile holding the
  result as on a tile holding \<open>w\<close>.
\<close>

theorem setTerrainCorner_other_corners:
  assumes "0 \<le> sint corner" "sint corner \<le> 3"
    and "0 \<le> sint other" "sint other \<le> 3"
    and "other \<noteq> corner"
  shows "\<exists>w'. setTerrainCorner w corner terrainId = Some w' \<and>
           cornerTerrainId (tile\<lparr>mTerrain := w'\<rparr>) other =
             cornerTerrainId (tile\<lparr>mTerrain := w\<rparr>) other \<and>
           cornerTerrainId (tile\<lparr>mTerrain := w\<rparr>) other \<noteq> None"
proof -
  define a where "a = 3 - nat (sint corner)"
  define b where "b = 3 - nat (sint other)"
  define w' where "w' = (w AND NOT (push_bit (8 * a) (mask 8))) OR
                          (push_bit (8 * a) terrainId AND push_bit (8 * a) (mask 8))"
  have "sint other \<noteq> sint corner" using assms(5) by (auto dest: signed_word_eqI)
  then have ab: "a \<noteq> b" using assms(1-4) by (simp add: a_def b_def)
  have sa: "shiftCount corner = Some (8 * a)"
    unfolding a_def by (rule shiftCount_Some [OF assms(1,2)])
  have sb: "shiftCount other = Some (8 * b)"
    unfolding b_def by (rule shiftCount_Some [OF assms(3,4)])
  have set: "setTerrainCorner w corner terrainId = Some w'"
    unfolding w'_def by (rule setTerrainCorner_Some [OF sa])
  have same: "drop_bit (8 * b) w' AND mask 8 = drop_bit (8 * b) w AND mask 8"
    unfolding w'_def by (rule other_byte [OF ab])
  have new: "cornerTerrainId (tile\<lparr>mTerrain := w'\<rparr>) other =
               Some (if drop_bit (8 * b) w AND mask 8 = 0xFF then - 1
                     else drop_bit (8 * b) w AND mask 8)"
    by (rule cornerTerrainId_Some [OF sb]) (simp add: same)
  have old: "cornerTerrainId (tile\<lparr>mTerrain := w\<rparr>) other =
               Some (if drop_bit (8 * b) w AND mask 8 = 0xFF then - 1
                     else drop_bit (8 * b) w AND mask 8)"
    by (rule cornerTerrainId_Some [OF sb]) simp
  show ?thesis using set new old by simp
qed

theorem setTerrainCorner_other_corners_witness:
  "0 \<le> sint (1 :: cint) \<and> sint (1 :: cint) \<le> 3 \<and>
   0 \<le> sint (3 :: cint) \<and> sint (3 :: cint) \<le> 3 \<and> (3 :: cint) \<noteq> 1 \<and>
   (\<exists>w'. setTerrainCorner 0x01020304 1 (- 1) = Some w' \<and>
      cornerTerrainId (plainTile\<lparr>mTerrain := w'\<rparr>) 3 =
        cornerTerrainId (plainTile\<lparr>mTerrain := 0x01020304\<rparr>) 3 \<and>
      cornerTerrainId (plainTile\<lparr>mTerrain := 0x01020304\<rparr>) 3 \<noteq> None)"
  using setTerrainCorner_other_corners [of 1 3 "0x01020304" "- 1" plainTile] by simp

text \<open>
  C3. For every tile and every corner in \<open>[0,3]\<close>, \<open>cornerTerrainId\<close> returns a value.
  With \<open>b\<close> the byte of the corner in the terrain word (the word divided by
  \<open>2 ^ (8 * (3 - corner))\<close>, modulo 256), the value is \<open>-1\<close> when \<open>b\<close> is \<open>0xFF\<close> and
  \<open>b\<close> itself otherwise; it always lies in \<open>[-1,254]\<close>.
\<close>

theorem cornerTerrainId_value:
  assumes "0 \<le> sint corner" "sint corner \<le> 3"
  shows "\<exists>r. cornerTerrainId tile corner = Some r \<and>
           sint r =
             (let b = (unat (terrain tile) div 2 ^ (8 * (3 - nat (sint corner)))) mod 256
              in if b = 255 then - 1 else int b) \<and>
           - 1 \<le> sint r \<and> sint r \<le> 254"
proof -
  define n where "n = 8 * (3 - nat (sint corner))"
  define t where "t = drop_bit n (terrain tile) AND 0xFF"
  define b where "b = (unat (terrain tile) div 2 ^ n) mod 256"
  have tb: "unat t = b" unfolding t_def b_def FF_mask by (rule unat_byte)
  have run: "cornerTerrainId tile corner = Some (if t = 0xFF then - 1 else t)"
    using shiftCount_Some [OF assms] by (simp add: cornerTerrainId_def n_def t_def)
  show ?thesis
  proof (cases "t = 0xFF")
    case True
    then have "b = 255" using tb by (simp add: FF_unat)
    with True run show ?thesis by (simp add: n_def [symmetric] b_def [symmetric])
  next
    case False
    then have ne: "b \<noteq> 255" using tb by (simp add: FF_unat)
    have lt: "b < 256" unfolding b_def by simp
    then have "sint t = int b" using sint_small [of t] tb by simp
    with False run ne lt show ?thesis
      by (simp add: n_def [symmetric] b_def [symmetric])
  qed
qed

theorem cornerTerrainId_value_witness:
  "0 \<le> sint (1 :: cint) \<and> sint (1 :: cint) \<le> 3 \<and>
   (\<exists>r. cornerTerrainId (plainTile\<lparr>mTerrain := 0x05FF0709\<rparr>) 1 = Some r \<and>
      sint r =
        (let b = (unat (terrain (plainTile\<lparr>mTerrain := 0x05FF0709\<rparr>)) div
                    2 ^ (8 * (3 - nat (sint (1 :: cint))))) mod 256
         in if b = 255 then - 1 else int b) \<and>
      - 1 \<le> sint r \<and> sint r \<le> 254) \<and>
   cornerTerrainId (plainTile\<lparr>mTerrain := 0x05FF0709\<rparr>) 1 = Some (- 1) \<and>
   cornerTerrainId (plainTile\<lparr>mTerrain := 0x05FF0709\<rparr>) 2 = Some 7"
proof -
  have a: "0 \<le> sint (1 :: cint)" "sint (1 :: cint) \<le> 3" by simp_all
  have b: "cornerTerrainId (plainTile\<lparr>mTerrain := 0x05FF0709\<rparr>) 1 = Some (- 1)"
    by (simp add: cornerTerrainId_def shiftCount_simps terrain_def drop_bit_eq_div)
  have c: "cornerTerrainId (plainTile\<lparr>mTerrain := 0x05FF0709\<rparr>) 2 = Some 7"
    by (simp add: cornerTerrainId_def shiftCount_simps terrain_def drop_bit_eq_div)
  show ?thesis
    using cornerTerrainId_value [OF a, of "plainTile\<lparr>mTerrain := 0x05FF0709\<rparr>"] a b c
    by blast
qed

text \<open>
  C4. For all \<^verbatim>\<open>int\<close> arguments, the value of the four-argument \<open>makeTerrain\<close> is the
  integer \<open>(topLeft<<24)|(topRight<<16)|(bottomLeft<<8)|bottomRight\<close> with each
  argument masked to its low 8 bits: the most significant byte of the word is the low
  byte of \<open>topLeft\<close>, followed by those of \<open>topRight\<close>, \<open>bottomLeft\<close> and
  \<open>bottomRight\<close>.
\<close>

theorem makeTerrain_encoding:
  "uint (makeTerrain topLeft topRight bottomLeft bottomRight) =
     terrainEncoding_spec (sint topLeft) (sint topRight) (sint bottomLeft) (sint bottomRight) \<and>
   drop_bit 24 (makeTerrain topLeft topRight bottomLeft bottomRight) AND 0xFF = topLeft AND 0xFF \<and>
   drop_bit 16 (makeTerrain topLeft topRight bottomLeft bottomRight) AND 0xFF = topRight AND 0xFF \<and>
   drop_bit 8 (makeTerrain topLeft topRight bottomLeft bottomRight) AND 0xFF = bottomLeft AND 0xFF \<and>
   makeTerrain topLeft topRight bottomLeft bottomRight AND 0xFF = bottomRight AND 0xFF"
proof -
  have "uint (makeTerrain topLeft topRight bottomLeft bottomRight) =
          terrainEncoding_spec (sint topLeft) (sint topRight) (sint bottomLeft) (sint bottomRight)"
    unfolding makeTerrain_def terrainEncoding_spec_def
    by (simp only: uint_or uint_push_low8 uint_low8)
  then show ?thesis
    by (simp only: makeTerrain_byte0 makeTerrain_byte1 makeTerrain_byte2 makeTerrain_byte3)
qed

text \<open>
  C10. For every tile, every corner in \<open>[0,3]\<close> and every \<open>terrainId\<close> in \<open>[-1,254]\<close>,
  \<open>setCornerTerrainId corner terrainId\<close> followed by \<open>cornerTerrainId\<close> of the same
  corner returns \<open>terrainId\<close>.
\<close>

theorem setCornerTerrainId_cornerTerrainId:
  assumes "0 \<le> sint corner" "sint corner \<le> 3"
    and "- 1 \<le> sint terrainId" "sint terrainId \<le> 254"
  shows "\<exists>tile'. setCornerTerrainId corner terrainId tile = Some tile' \<and>
           cornerTerrainId tile' corner = Some terrainId"
proof -
  define a where "a = 3 - nat (sint corner)"
  define w' where "w' = (mTerrain tile AND NOT (push_bit (8 * a) (mask 8))) OR
                          (push_bit (8 * a) terrainId AND push_bit (8 * a) (mask 8))"
  define t where "t = terrainId AND mask 8"
  have a3: "a \<le> 3" by (simp add: a_def)
  have sa: "shiftCount corner = Some (8 * a)"
    unfolding a_def by (rule shiftCount_Some [OF assms(1,2)])
  have dec: "(if t = 0xFF then - 1 else t) = terrainId"
  proof (cases "sint terrainId = - 1")
    case True
    then have "sint terrainId = sint (- 1 :: cint)" by simp
    then have "terrainId = - 1" by (rule signed_word_eqI)
    then show ?thesis by (simp add: t_def FF_mask [symmetric])
  next
    case False
    then have "0 \<le> sint terrainId" using assms(3) by arith
    from byte_small [OF this assms(4)] show ?thesis by (simp add: t_def FF_mask [symmetric])
  qed
  have set: "setTerrainCorner (mTerrain tile) corner terrainId = Some w'"
    unfolding w'_def by (rule setTerrainCorner_Some [OF sa])
  have byte: "drop_bit (8 * a) w' AND mask 8 = t"
    unfolding w'_def t_def by (rule same_byte [OF a3])
  have "cornerTerrainId (setTerrain w' tile) corner = Some (if t = 0xFF then - 1 else t)"
    by (rule cornerTerrainId_Some [OF sa]) (simp add: setTerrain_def byte)
  then show ?thesis using set dec by (simp add: setCornerTerrainId_def)
qed

theorem setCornerTerrainId_cornerTerrainId_witness:
  "0 \<le> sint (0 :: cint) \<and> sint (0 :: cint) \<le> 3 \<and>
   - 1 \<le> sint (- 1 :: cint) \<and> sint (- 1 :: cint) \<le> 254 \<and>
   (\<exists>tile'. setCornerTerrainId 0 (- 1) (plainTile\<lparr>mTerrain := 0x01020304\<rparr>) = Some tile' \<and>
      cornerTerrainId tile' 0 = Some (- 1))"
  using setCornerTerrainId_cornerTerrainId [of 0 "- 1" "plainTile\<lparr>mTerrain := 0x01020304\<rparr>"]
  by simp

section \<open>Claims on the accessors\<close>

text \<open>
  C5. For every tile, \<open>isAnimated\<close> is false exactly when the frame sequence is empty
  and true exactly when it is not.
\<close>

theorem isAnimated_frames:
  "(isAnimated tile = False \<longleftrightarrow> frames tile = []) \<and>
   (isAnimated tile = True \<longleftrightarrow> frames tile \<noteq> [])"
  by (simp add: isAnimated_def frames_def)

text \<open>
  C9. For every tile and every pixmap, after \<open>setImage\<close> the image status is
  \<open>LoadingError\<close> if the pixmap is null and \<open>LoadingReady\<close> otherwise (so never
  \<open>LoadingPending\<close>), and the tile holds the pixmap.
\<close>

theorem setImage_imageStatus:
  "imageStatus (setImage img tile) = (if isNull img then LoadingError else LoadingReady) \<and>
   imageStatus (setImage img tile) \<noteq> LoadingPending \<and>
   mImage (setImage img tile) = img"
  by (simp add: imageStatus_def setImage_def)

section \<open>The animation loop\<close>

lemma frameAfter_0:
  assumes "0 \<le> i" "i < int (length fs)"
  shows "frameAfter fs i 0 = fs ! nat i"
  using assms by (simp add: frameAfter_def)

lemma frameAfter_next:
  "frameAfter fs ((i + 1) mod int (length fs)) k = frameAfter fs i (Suc k)"
proof -
  have "((i + 1) mod int (length fs) + int k) mod int (length fs) =
          (i + 1 + int k) mod int (length fs)"
    by (rule mod_add_left_eq)
  also have "i + 1 + int k = i + int (Suc k)" by simp
  finally show ?thesis by (simp only: frameAfter_def)
qed

lemma passedTime_0: "passedTime fs i 0 = 0"
  by (simp add: passedTime_def)

lemma passedTime_next:
  "passedTime fs i (Suc k) =
     duration (frameAfter fs i 0) + passedTime fs ((i + 1) mod int (length fs)) k"
proof -
  have "[0..<Suc k] = 0 # map Suc [0..<k]"
    by (simp add: upt_conv_Cons map_Suc_upt del: upt_Suc)
  then have "passedTime fs i (Suc k) =
               duration (frameAfter fs i 0) + (\<Sum>j \<leftarrow> [0..<k]. duration (frameAfter fs i (Suc j)))"
    by (simp add: passedTime_def comp_def del: upt_Suc)
  then show ?thesis by (simp add: passedTime_def frameAfter_next)
qed

lemma advanceLoop_stop:
  assumes "\<not> (0 \<le> i \<and> i < int (length fs) \<and>
              0 < duration (fs ! nat i) \<and> duration (fs ! nat i) < unused)"
  shows "advanceLoop fs i unused = (i, unused)"
  using assms by (subst advanceLoop.simps) auto

lemma advanceLoop_step:
  assumes "0 \<le> i" "i < int (length fs)"
    and "0 < duration (fs ! nat i)" "duration (fs ! nat i) < unused"
  shows "advanceLoop fs i unused =
           advanceLoop fs ((i + 1) mod int (length fs)) (unused - duration (fs ! nat i))"
  using assms by (subst advanceLoop.simps) simp

lemma advanceLoop_account:
  assumes "0 \<le> i" "i < int (length fs)" "advanceLoop fs i unused = (i', unused')"
  shows "\<exists>k. i' = (i + int k) mod int (length fs) \<and>
           unused = unused' + passedTime fs i k \<and>
           (\<forall>j<k. 0 < duration (frameAfter fs i j)) \<and>
           (\<forall>j<k. passedTime fs i (Suc j) < unused) \<and>
           \<not> (0 < duration (fs ! nat i') \<and> duration (fs ! nat i') < unused')"
  using assms
proof (induction fs i unused rule: advanceLoop.induct)
  case (1 fs i unused)
  let ?n = "int (length fs)"
  let ?d = "duration (fs ! nat i)"
  show ?case
  proof (cases "0 < ?d \<and> ?d < unused")
    case True
    have run: "advanceLoop fs ((i + 1) mod ?n) (unused - ?d) = (i', unused')"
      using advanceLoop_step [of i fs unused] True "1.prems" by simp
    have pos: "0 < ?n" using "1.prems"(1,2) by linarith
    have range: "0 \<le> (i + 1) mod ?n" "(i + 1) mod ?n < ?n"
      using pos by (rule pos_mod_sign, rule pos_mod_bound)
    have guard: "0 \<le> i \<and> i < ?n \<and> 0 < ?d \<and> ?d < unused"
      using True "1.prems"(1,2) by simp
    from "1.IH" [OF guard range run] obtain k where
      k1: "i' = ((i + 1) mod ?n + int k) mod ?n" and
      k2: "unused - ?d = unused' + passedTime fs ((i + 1) mod ?n) k" and
      k3: "\<forall>j<k. 0 < duration (frameAfter fs ((i + 1) mod ?n) j)" and
      k5: "\<forall>j<k. passedTime fs ((i + 1) mod ?n) (Suc j) < unused - ?d" and
      k4: "\<not> (0 < duration (fs ! nat i') \<and> duration (fs ! nat i') < unused')"
      by blast
    have "((i + 1) mod ?n + int k) mod ?n = (i + 1 + int k) mod ?n"
      by (rule mod_add_left_eq)
    also have "i + 1 + int k = i + int (Suc k)" by simp
    finally have "i' = (i + int (Suc k)) mod ?n" using k1 by simp
    moreover have "unused = unused' + passedTime fs i (Suc k)"
      using k2 "1.prems"(1,2) by (simp add: passedTime_next frameAfter_0)
    moreover have "\<forall>j<Suc k. 0 < duration (frameAfter fs i j)"
    proof (intro allI impI)
      fix j assume "j < Suc k"
      show "0 < duration (frameAfter fs i j)"
      proof (cases j)
        case 0
        then show ?thesis using True "1.prems"(1,2) by (simp add: frameAfter_0)
      next
        case (Suc m)
        then have "m < k" using \<open>j < Suc k\<close> by simp
        then show ?thesis using k3 Suc by (simp add: frameAfter_next)
      qed
    qed
    moreover have "\<forall>j<Suc k. passedTime fs i (Suc j) < unused"
    proof (intro allI impI)
      fix j assume "j < Suc k"
      show "passedTime fs i (Suc j) < unused"
      proof (cases j)
        case 0
        have "passedTime fs i (Suc 0) = ?d"
          using "1.prems"(1,2) by (simp add: passedTime_next passedTime_0 frameAfter_0)
        then show ?thesis using True 0 by simp
      next
        case (Suc m)
        then have "m < k" using \<open>j < Suc k\<close> by simp
        then have "passedTime fs ((i + 1) mod ?n) (Suc m) < unused - ?d" using k5 by simp
        moreover have "passedTime fs i (Suc (Suc m)) =
                         ?d + passedTime fs ((i + 1) mod ?n) (Suc m)"
          using "1.prems"(1,2) by (simp add: passedTime_next [of fs i "Suc m"] frameAfter_0)
        ultimately show ?thesis using Suc by simp
      qed
    qed
    ultimately show ?thesis using k4 by blast
  next
    case False
    then have "advanceLoop fs i unused = (i, unused)" by (intro advanceLoop_stop) simp
    then have "i' = i" "unused' = unused" using "1.prems"(3) by simp_all
    then have "i' = (i + int 0) mod ?n \<and> unused = unused' + passedTime fs i 0 \<and>
                 (\<forall>j<0. 0 < duration (frameAfter fs i j)) \<and>
                 (\<forall>j<0. passedTime fs i (Suc j) < unused) \<and>
                 \<not> (0 < duration (fs ! nat i') \<and> duration (fs ! nat i') < unused')"
      using False "1.prems"(1,2) by (simp add: passedTime_0)
    then show ?thesis by blast
  qed
qed


lemma advanceLoop_index:
  assumes "0 \<le> i" "i < int (length fs)" "advanceLoop fs i unused = (i', unused')"
  shows "0 \<le> i' \<and> i' < int (length fs)"
proof -
  from advanceLoop_account [OF assms] obtain k where
    k: "i' = (i + int k) mod int (length fs)" by blast
  have pos: "0 < int (length fs)" using assms(1,2) by linarith
  show ?thesis unfolding k using pos by (simp only: pos_mod_sign pos_mod_bound)
qed

lemma advanceLoop_unused:
  assumes "advanceLoop fs i unused = (i', unused')"
  shows "unused' \<le> unused \<and> (unused' = unused \<or> 0 < unused')"
  using assms
proof (induction fs i unused rule: advanceLoop.induct)
  case (1 fs i unused)
  let ?n = "int (length fs)"
  let ?d = "duration (fs ! nat i)"
  show ?case
  proof (cases "0 \<le> i \<and> i < ?n \<and> 0 < ?d \<and> ?d < unused")
    case True
    then have run: "advanceLoop fs ((i + 1) mod ?n) (unused - ?d) = (i', unused')"
      using advanceLoop_step [of i fs unused] "1.prems" by simp
    from "1.IH" [OF True run]
    have "unused' \<le> unused - ?d \<and> (unused' = unused - ?d \<or> 0 < unused')" .
    then show ?thesis using True by auto
  next
    case False
    then have "advanceLoop fs i unused = (i, unused)" by (rule advanceLoop_stop)
    then show ?thesis using "1.prems" by simp
  qed
qed

lemma advanceLoop_intRange:
  assumes "intRange unused" "advanceLoop fs i unused = (i', unused')"
  shows "intRange unused'"
proof -
  from advanceLoop_unused [OF assms(2)]
  have "unused' \<le> unused" "unused' = unused \<or> 0 < unused'" by simp_all
  then show ?thesis using assms(1) by (auto simp: intRange_def)
qed

lemma advanceAnimation_animated:
  assumes "isAnimated tile" "frameIndexValid tile"
    and "intRange (mUnusedTime tile + ms)"
    and "advanceLoop (mFrames tile) (mCurrentFrameIndex tile) (mUnusedTime tile + ms) =
           (i', unused')"
  shows "advanceAnimation ms tile =
           Some (tile\<lparr>mCurrentFrameIndex := i', mUnusedTime := unused'\<rparr>,
                 visibleTileId (tile\<lparr>mCurrentFrameIndex := i', mUnusedTime := unused'\<rparr>) \<noteq>
                   visibleTileId tile)"
  using assms by (simp add: advanceAnimation_def Let_def)

lemma visibleTileId_same_index:
  assumes "mFrames tile' = mFrames tile" "mCurrentFrameIndex tile' = mCurrentFrameIndex tile"
  shows "visibleTileId tile' = visibleTileId tile"
  using assms by (simp add: visibleTileId_def frameIndexValid_def)

section \<open>Claims on the animation state\<close>

text \<open>
  C6. For every tile, after \<open>resetAnimation\<close> the current frame index is 0 and the
  unused time is 0, the frames are unchanged, the visible frame is the first frame of
  the sequence (none on an empty sequence), and the result is true if and only if the
  visible frame differs from the one before the call.
\<close>

theorem resetAnimation_first_frame:
  "currentFrameIndex (fst (resetAnimation tile)) = 0 \<and>
   mUnusedTime (fst (resetAnimation tile)) = 0 \<and>
   frames (fst (resetAnimation tile)) = frames tile \<and>
   visibleTileId (fst (resetAnimation tile)) =
     (if isAnimated tile then Some (tileId (hd (frames tile))) else None) \<and>
   (snd (resetAnimation tile) \<longleftrightarrow>
      visibleTileId (fst (resetAnimation tile)) \<noteq> visibleTileId tile)"
  by (cases "mFrames tile")
    (simp_all add: resetAnimation_def Let_def currentFrameIndex_def frames_def
      visibleTileId_def frameIndexValid_def isAnimated_def)

text \<open>
  C7. For every animated tile with a valid current index, and every \<open>ms\<close> whose sum
  with the unused time is within the range of an \<^verbatim>\<open>int\<close>, \<open>advanceAnimation ms\<close>
  returns a tile and a flag. Only the current index and the unused time of the tile
  change. The index has moved \<open>k\<close> places forward, going back to the first frame after
  the last one, where the \<open>k\<close> frames left behind have positive durations that add up,
  with the new unused time, to the old unused time plus \<open>ms\<close>. Each of the \<open>k\<close> frames was left only after it ran out: the
  durations up to and including it are below the old unused time plus \<open>ms\<close>. The frame
  reached has not run out (its duration is not positive, or not below the unused time),
  so \<open>k\<close> is the number of frames that ran out one after the other. The new index is
  valid and the new unused time is within the range of an \<^verbatim>\<open>int\<close>. The flag is true if
  and only if the visible frame changed. On a sequence of one frame, and on a current
  frame whose duration is not positive, the index stays and the flag is false.
\<close>

theorem advanceAnimation_moves:
  assumes "isAnimated tile" "frameIndexValid tile" "intRange (mUnusedTime tile + ms)"
  shows "\<exists>tile' changed k.
           advanceAnimation ms tile = Some (tile', changed) \<and>
           tile' = tile\<lparr>mCurrentFrameIndex := currentFrameIndex tile',
                        mUnusedTime := mUnusedTime tile'\<rparr> \<and>
           frames tile' = frames tile \<and>
           currentFrameIndex tile' =
             (currentFrameIndex tile + int k) mod int (length (frames tile)) \<and>
           mUnusedTime tile + ms =
             mUnusedTime tile' + passedTime (frames tile) (currentFrameIndex tile) k \<and>
           (\<forall>j<k. 0 < duration (frameAfter (frames tile) (currentFrameIndex tile) j)) \<and>
           (\<forall>j<k. passedTime (frames tile) (currentFrameIndex tile) (Suc j)
                    < mUnusedTime tile + ms) \<and>
           \<not> (0 < duration (frameAfter (frames tile') (currentFrameIndex tile') 0) \<and>
              duration (frameAfter (frames tile') (currentFrameIndex tile') 0)
                < mUnusedTime tile') \<and>
           frameIndexValid tile' \<and> intRange (mUnusedTime tile') \<and>
           (changed \<longleftrightarrow> visibleTileId tile' \<noteq> visibleTileId tile) \<and>
           (length (frames tile) = 1 \<or>
            duration (frameAfter (frames tile) (currentFrameIndex tile) 0) \<le> 0 \<longrightarrow>
              currentFrameIndex tile' = currentFrameIndex tile \<and> \<not> changed)"
proof -
  let ?fs = "mFrames tile"
  let ?i = "mCurrentFrameIndex tile"
  let ?n = "int (length ?fs)"
  obtain i' unused' where
    run: "advanceLoop ?fs ?i (mUnusedTime tile + ms) = (i', unused')"
    by (cases "advanceLoop ?fs ?i (mUnusedTime tile + ms)")
  define tile' where "tile' = tile\<lparr>mCurrentFrameIndex := i', mUnusedTime := unused'\<rparr>"
  define changed where "changed \<longleftrightarrow> visibleTileId tile' \<noteq> visibleTileId tile"
  have valid: "0 \<le> ?i" "?i < ?n" using assms(2) by (simp_all add: frameIndexValid_def)
  have res: "advanceAnimation ms tile = Some (tile', changed)"
    unfolding tile'_def changed_def by (rule advanceAnimation_animated [OF assms run])
  have range': "intRange (mUnusedTime tile')"
    using advanceLoop_intRange [OF assms(3) run] by (simp add: tile'_def)
  from advanceLoop_account [OF valid run] obtain k where
    k1: "i' = (?i + int k) mod ?n" and
    k2: "mUnusedTime tile + ms = unused' + passedTime ?fs ?i k" and
    k3: "\<forall>j<k. 0 < duration (frameAfter ?fs ?i j)" and
    k5: "\<forall>j<k. passedTime ?fs ?i (Suc j) < mUnusedTime tile + ms" and
    k4: "\<not> (0 < duration (?fs ! nat i') \<and> duration (?fs ! nat i') < unused')"
    by blast
  have valid': "0 \<le> i'" "i' < ?n" using advanceLoop_index [OF valid run] by simp_all
  have index': "frameIndexValid tile'"
    using valid' by (simp add: tile'_def frameIndexValid_def)
  have ranOut: "\<forall>j<k. passedTime (frames tile) (currentFrameIndex tile) (Suc j)
                         < mUnusedTime tile + ms"
    using k5 by (simp add: frames_def currentFrameIndex_def)
  have fs': "frames tile' = frames tile" by (simp add: tile'_def frames_def)
  have rest: "tile' = tile\<lparr>mCurrentFrameIndex := currentFrameIndex tile',
                           mUnusedTime := mUnusedTime tile'\<rparr>"
    by (simp add: tile'_def currentFrameIndex_def)
  have idx': "currentFrameIndex tile' = (currentFrameIndex tile + int k) mod int (length (frames tile))"
    using k1 by (simp add: tile'_def frames_def currentFrameIndex_def)
  have time: "mUnusedTime tile + ms =
                mUnusedTime tile' + passedTime (frames tile) (currentFrameIndex tile) k"
    using k2 by (simp add: tile'_def frames_def currentFrameIndex_def)
  have passed: "\<forall>j<k. 0 < duration (frameAfter (frames tile) (currentFrameIndex tile) j)"
    using k3 by (simp add: frames_def currentFrameIndex_def)
  have stop: "\<not> (0 < duration (frameAfter (frames tile') (currentFrameIndex tile') 0) \<and>
                duration (frameAfter (frames tile') (currentFrameIndex tile') 0)
                  < mUnusedTime tile')"
    using k4 valid' by (simp add: tile'_def frames_def currentFrameIndex_def frameAfter_0)
  have still: "currentFrameIndex tile' = currentFrameIndex tile \<and> \<not> changed"
    if "length (frames tile) = 1 \<or>
        duration (frameAfter (frames tile) (currentFrameIndex tile) 0) \<le> 0"
  proof -
    have same: "i' = ?i"
      using that
    proof
      assume "length (frames tile) = 1"
      then have "?n = 1" by (simp add: frames_def)
      then show ?thesis using valid valid' by simp
    next
      assume "duration (frameAfter (frames tile) (currentFrameIndex tile) 0) \<le> 0"
      then have "\<not> (0 < duration (?fs ! nat ?i))"
        using valid by (simp add: frames_def currentFrameIndex_def frameAfter_0)
      then have "advanceLoop ?fs ?i (mUnusedTime tile + ms) = (?i, mUnusedTime tile + ms)"
        by (intro advanceLoop_stop) simp
      then show ?thesis using run by simp
    qed
    then have "visibleTileId tile' = visibleTileId tile"
      by (intro visibleTileId_same_index) (simp_all add: tile'_def)
    then show ?thesis using same by (simp add: changed_def tile'_def currentFrameIndex_def)
  qed
  have rep: "changed \<longleftrightarrow> visibleTileId tile' \<noteq> visibleTileId tile" by (simp add: changed_def)
  show ?thesis
    using res rest fs' idx' time passed ranOut stop index' range' rep still by blast
qed


theorem advanceAnimation_moves_witness:
  "isAnimated (plainTile\<lparr>mFrames := threeFrames, mCurrentFrameIndex := 1, mUnusedTime := 20\<rparr>) \<and>
   frameIndexValid (plainTile\<lparr>mFrames := threeFrames, mCurrentFrameIndex := 1, mUnusedTime := 20\<rparr>) \<and>
   intRange
     (mUnusedTime (plainTile\<lparr>mFrames := threeFrames, mCurrentFrameIndex := 1, mUnusedTime := 20\<rparr>)
        + 300) \<and>
   advanceAnimation 300
       (plainTile\<lparr>mFrames := threeFrames, mCurrentFrameIndex := 1, mUnusedTime := 20\<rparr>) =
     Some (plainTile\<lparr>mFrames := threeFrames, mCurrentFrameIndex := 0, mUnusedTime := 70\<rparr>, True) \<and>
   (\<exists>tile' changed k.
      advanceAnimation 300
          (plainTile\<lparr>mFrames := threeFrames, mCurrentFrameIndex := 1, mUnusedTime := 20\<rparr>) =
        Some (tile', changed) \<and>
      currentFrameIndex tile' = (1 + int k) mod 3 \<and>
      20 + 300 = mUnusedTime tile' + passedTime threeFrames 1 k \<and>
      (\<forall>j<k. passedTime threeFrames 1 (Suc j) < 20 + 300)) \<and>
   advanceAnimation 2147483647
       (plainTile\<lparr>mFrames := threeFrames, mCurrentFrameIndex := 1, mUnusedTime := 20\<rparr>) = None \<and>
   advanceAnimation 1000 (plainTile\<lparr>mFrames := [\<lparr>tileId = 3, duration = 0\<rparr>]\<rparr>) =
     Some (plainTile\<lparr>mFrames := [\<lparr>tileId = 3, duration = 0\<rparr>], mUnusedTime := 1000\<rparr>, False)"
proof -
  let ?t = "plainTile\<lparr>mFrames := threeFrames, mCurrentFrameIndex := 1, mUnusedTime := 20\<rparr>"
  have a: "isAnimated ?t" by (simp add: isAnimated_def threeFrames_def)
  have v: "frameIndexValid ?t" by (simp add: frameIndexValid_def threeFrames_def)
  have g: "intRange (mUnusedTime ?t + 300)" by (simp add: intRange_def)
  have over: "advanceAnimation 2147483647 ?t = None"
    using a v by (simp add: advanceAnimation_def intRange_def)
  have l1: "advanceLoop threeFrames 1 320 = advanceLoop threeFrames 2 270"
    by (subst advanceLoop.simps) (simp add: threeFrames_def)
  have l2: "advanceLoop threeFrames 2 270 = advanceLoop threeFrames 0 70"
    by (subst advanceLoop.simps) (simp add: threeFrames_def)
  have l3: "advanceLoop threeFrames 0 70 = (0, 70)"
    by (subst advanceLoop.simps) (simp add: threeFrames_def)
  have r: "advanceAnimation 300 ?t =
             Some (plainTile\<lparr>mFrames := threeFrames, mCurrentFrameIndex := 0, mUnusedTime := 70\<rparr>, True)"
    using a v g
    by (simp add: advanceAnimation_def l1 l2 l3 visibleTileId_def frameIndexValid_def)
      (simp add: threeFrames_def)
  from advanceAnimation_moves [OF a v g] obtain tile' changed k where
    "advanceAnimation 300 ?t = Some (tile', changed)"
    "currentFrameIndex tile' = (currentFrameIndex ?t + int k) mod int (length (frames ?t))"
    "mUnusedTime ?t + 300 = mUnusedTime tile' + passedTime (frames ?t) (currentFrameIndex ?t) k"
    "\<forall>j<k. passedTime (frames ?t) (currentFrameIndex ?t) (Suc j) < mUnusedTime ?t + 300"
    by blast
  then have "advanceAnimation 300 ?t = Some (tile', changed) \<and>
      currentFrameIndex tile' = (1 + int k) mod 3 \<and>
      20 + 300 = mUnusedTime tile' + passedTime threeFrames 1 k \<and>
      (\<forall>j<k. passedTime threeFrames 1 (Suc j) < 20 + 300)"
    by (simp add: frames_def currentFrameIndex_def threeFrames_def)
  moreover have "advanceLoop [\<lparr>tileId = 3, duration = 0\<rparr>] 0 1000 = (0, 1000)"
    by (subst advanceLoop.simps) simp
  then have "advanceAnimation 1000 (plainTile\<lparr>mFrames := [\<lparr>tileId = 3, duration = 0\<rparr>]\<rparr>) =
     Some (plainTile\<lparr>mFrames := [\<lparr>tileId = 3, duration = 0\<rparr>], mUnusedTime := 1000\<rparr>, False)"
    by (simp add: advanceAnimation_def isAnimated_def frameIndexValid_def visibleTileId_def
        plainTile_def intRange_def)
  ultimately show ?thesis using a v g over r by blast
qed

end
